theory Spec2Isabelle
  imports Main "HOL-Library.Word"
begin

section \<open>Machine integers, failures and iterators\<close>

text \<open>
  The indices of \<open>py_journal.cc\<close> are C \<open>long\<close> values: 64 bits, two's complement, on
  the LP64 platforms the program is built for. They are read through \<open>sint\<close>.
\<close>

type_synonym long = "64 word"

definition LONG_MIN :: int where
  "LONG_MIN = - (2 ^ 63)"

text \<open>
  What a call can end with instead of a value. \<open>IndexError\<close> is the Python exception set
  by \<open>PyErr_SetString(PyExc_IndexError, "Index out of range")\<close> (the spec's IndexOutOfRange),
  \<open>RuntimeError\<close> the one set by \<open>PyErr_SetString(PyExc_RuntimeError, "Cannot have multiple
  journal collections open at once")\<close> (the spec's ConcurrentCollectionError), \<open>Thrown\<close> a
  C++ exception raised by one of the functions \<open>py_collect\<close> calls, and
  \<open>UndefinedBehaviour\<close> stands for an execution the C++ standard gives no meaning to:
  an unchecked read out of range, the dereference of a past-the-end iterator, or the
  overflow of a signed operation.
\<close>

datatype failure = IndexError | RuntimeError | Thrown string | UndefinedBehaviour

text \<open>
  \<open>labs\<close> of the C library. The absolute value of \<open>LONG_MIN\<close> is not a \<open>long\<close>, and C
  leaves the call undefined there (on two's complement hardware it returns \<open>LONG_MIN\<close>
  itself, a negative number).
\<close>

definition labs :: "long \<Rightarrow> int option" where
  "labs i = (if sint i = LONG_MIN then None else Some \<bar>sint i\<bar>)"

text \<open>
  A container is known by its address and read through its forward traversal, a list.
  An iterator into it is the number of elements before it, so \<open>begin()\<close> is 0 and
  \<open>end()\<close> is the length; \<open>++\<close> adds one. Dereferencing is defined on the positions
  before \<open>end()\<close> only.
\<close>

type_synonym addr = nat

definition deref :: "'a list \<Rightarrow> nat \<Rightarrow> failure + 'a" where
  "deref xs p = (if p < length xs then Inr (xs ! p) else Inl UndefinedBehaviour)"

text \<open>
  The loop \<open>while (--x >= 0) elem++;\<close> of both accessors: \<open>x\<close> is decremented first and
  tested after. The third argument counts the increments of the iterator.
\<close>

function walk :: "int \<Rightarrow> nat \<Rightarrow> nat \<Rightarrow> nat \<times> nat" where
  "walk x elem n = (if 0 \<le> x - 1 then walk (x - 1) (Suc elem) (Suc n) else (elem, n))"
  by pat_completeness auto
termination
  by (relation "measure (\<lambda>(x, elem, n). nat x)") auto

declare walk.simps [simp del]

section \<open>The indexed accessors\<close>

text \<open>
  The three function-local statics of an accessor: \<open>last_index\<close> (initially 0),
  \<open>last_journal\<close> or \<open>last_account\<close> (initially \<open>NULL\<close>, here \<open>None\<close>) and the iterator
  \<open>elem\<close>. Each accessor has its own. The iterator starts out singular; it is not read
  before a first walk has assigned it, since no container has the address \<open>NULL\<close>.
\<close>

record statics =
  last_index :: long
  last_container :: "addr option"
  elem :: nat

definition initial_statics :: statics where
  "initial_statics = \<lparr>last_index = 0, last_container = None, elem = 0\<rparr>"

text \<open>
  The result of one call: what the caller receives, how many times the call incremented
  an iterator, and the statics the call leaves behind.
\<close>

record 'a getitem_result =
  outcome :: "failure + 'a"
  increments :: nat
  statics_after :: statics

text \<open>
  Of a journal, the list \<open>xacts\<close> in the order its iterator visits it, and the transient
  annotations of its items (see below); of an account, the children map \<open>accounts\<close> in
  the order its iterator visits it. The conversion \<open>long len = ....size()\<close> keeps the
  value: a container that fits in memory has fewer than \<open>2 ^ 63\<close> elements.
\<close>

record 'x journal =
  xacts :: "'x list"
  xdata :: "nat set"

record 'c account =
  accounts :: "(string \<times> 'c) list"

text \<open>
  \<open>xacts_getitem(journal_t& journal, long i)\<close>; the reference is the address \<open>a\<close> together
  with the journal found there. The comparison \<open>i == last_index + 1\<close> is made on words:
  it is reached only when \<open>i\<close> is not \<open>LONG_MIN\<close>, where the wrapped sum and the
  mathematical one agree on whether they equal \<open>i\<close>.
\<close>

definition xacts_getitem ::
  "addr \<Rightarrow> 'x journal \<Rightarrow> long \<Rightarrow> statics \<Rightarrow> 'x getitem_result" where
  "xacts_getitem a journal i s =
    (let len = int (length (xacts journal)) in
     case labs i of
       None \<Rightarrow> \<lparr>outcome = Inl UndefinedBehaviour, increments = 0, statics_after = s\<rparr>
     | Some m \<Rightarrow>
         if m \<ge> len then
           \<lparr>outcome = Inl IndexError, increments = 0, statics_after = s\<rparr>
         else if Some a = last_container s \<and> i = last_index s + 1 then
           (let e = Suc (elem s) in
            \<lparr>outcome = deref (xacts journal) e, increments = 1,
             statics_after = s\<lparr>last_index := i, elem := e\<rparr>\<rparr>)
         else
           (let x = (if sint i < 0 then len + sint i else sint i);
                (e, n) = walk x 0 0
            in \<lparr>outcome = deref (xacts journal) e, increments = n,
                statics_after = \<lparr>last_index = i, last_container = Some a, elem = e\<rparr>\<rparr>))"

text \<open>
  \<open>accounts_getitem(account_t& account, long i)\<close>, the same code over the children map of
  an account: \<open>accounts\<close> is the map in the order its iterator visits it, and the call
  returns the \<open>second\<close> of the pair the iterator stands at.
\<close>

definition accounts_getitem ::
  "addr \<Rightarrow> 'c account \<Rightarrow> long \<Rightarrow> statics \<Rightarrow> 'c getitem_result" where
  "accounts_getitem a account i s =
    (let len = int (length (accounts account)) in
     case labs i of
       None \<Rightarrow> \<lparr>outcome = Inl UndefinedBehaviour, increments = 0, statics_after = s\<rparr>
     | Some m \<Rightarrow>
         if m \<ge> len then
           \<lparr>outcome = Inl IndexError, increments = 0, statics_after = s\<rparr>
         else if Some a = last_container s \<and> i = last_index s + 1 then
           (let e = Suc (elem s) in
            \<lparr>outcome = map_sum id snd (deref (accounts account) e), increments = 1,
             statics_after = s\<lparr>last_index := i, elem := e\<rparr>\<rparr>)
         else
           (let x = (if sint i < 0 then len + sint i else sint i);
                (e, n) = walk x 0 0
            in \<lparr>outcome = map_sum id snd (deref (accounts account) e), increments = n,
                statics_after = \<lparr>last_index = i, last_container = Some a, elem = e\<rparr>\<rparr>))"

section \<open>Vocabulary for the accessors\<close>

text \<open>
  \<open>in_bounds len i\<close>: the call with index \<open>i\<close> on a container of \<open>len\<close> elements
  evaluates \<open>labs(i)\<close> without overflow and passes the test \<open>labs(i) >= len\<close>.
  \<open>resolved len i\<close> is the position \<open>i < 0 ? len + i : i\<close> the slow path walks to.
\<close>

definition in_bounds :: "int \<Rightarrow> long \<Rightarrow> bool" where
  "in_bounds len i = (sint i \<noteq> LONG_MIN \<and> \<bar>sint i\<bar> < len)"

definition resolved :: "int \<Rightarrow> long \<Rightarrow> nat" where
  "resolved len i = nat (if sint i < 0 then len + sint i else sint i)"

text \<open>
  The statics agree with the containers \<open>contents\<close> (each address with its forward
  traversal) when the cached iterator stands where a walk to the cached index would
  leave it. This is what "the content is unchanged since the cache was built" gives.
\<close>

definition coherent :: "(addr \<Rightarrow> 'a list) \<Rightarrow> statics \<Rightarrow> bool" where
  "coherent contents s =
    (case last_container s of
       None \<Rightarrow> True
     | Some b \<Rightarrow> in_bounds (int (length (contents b))) (last_index s) \<and>
         elem s = resolved (int (length (contents b))) (last_index s))"

text \<open>
  A caller that indexes one journal with a list of indices, one call after the other,
  each call starting from the statics the previous one left.
\<close>

fun xacts_getitem_calls ::
  "addr \<Rightarrow> 'x journal \<Rightarrow> long list \<Rightarrow> statics \<Rightarrow> 'x getitem_result list" where
  "xacts_getitem_calls a journal [] s = []"
| "xacts_getitem_calls a journal (i # is) s =
     (let r = xacts_getitem a journal i s
      in r # xacts_getitem_calls a journal is (statics_after r))"

section \<open>Journals, the report and the session\<close>

text \<open>
  Modelled from the spec: \<open>journal_t::has_xdata\<close> and \<open>journal_t::clear_xdata\<close> are
  declared in \<open>journal.h\<close>, which is not among the sources; \<open>py_collect\<close> and the
  destructor of \<open>collector_wrapper\<close> only call them. The transient annotation store of
  a ledger is the field \<open>xdata\<close>, the set of the ledger's items that carry an
  annotation. \<open>clear_xdata\<close> empties the store ("clears the originating Ledger's
  transient annotation store"), and \<open>has_xdata\<close>, the spec's
  \<open>has_pending_collection\<close>, holds while the store is not empty, so that the one call
  of \<open>clear_xdata\<close> in the destructor also "clears that Ledger's pending-collection
  flag". Nothing in \<open>py_collect\<close> itself writes the store.
\<close>

definition has_xdata :: "'x journal \<Rightarrow> bool" where
  \<comment> \<open>Modelled from the spec: the ledger holds transient annotations.\<close>
  "has_xdata journal = (xdata journal \<noteq> {})"

definition clear_xdata :: "'x journal \<Rightarrow> 'x journal" where
  \<comment> \<open>Modelled from the spec: the transient annotation store is emptied.\<close>
  "clear_xdata journal = journal\<lparr>xdata := {}\<rparr>"

text \<open>
  The state \<open>py_collect\<close> works on: the report \<open>scope_t::default_scope\<close> points to
  (its own options, of a type \<open>'r\<close> left open), the session of that report, which is the
  slot \<open>session.journal\<close> (\<open>None\<close> for a null pointer) and every other member of the
  session (of a type \<open>'s\<close> left open), and the journals by address.
\<close>

record ('r, 's, 'x) world =
  default_scope :: 'r
  session_journal :: "addr option"
  session_other :: 's
  journals :: "addr \<Rightarrow> 'x journal"

text \<open>
  \<open>struct collector_wrapper\<close>: the reference \<open>journal\<close> is an address, \<open>report\<close> holds
  the options of the wrapper's own copy of the report (the copy refers to the same
  session as the report it was copied from), and \<open>posts_collector\<close> is the vector
  \<open>posts\<close> of the \<open>collect_posts\<close> handler it points to. The member \<open>chain\<close> only keeps
  the handlers alive and is left out.
\<close>

record ('r, 'p) collector_wrapper =
  journal :: addr
  report :: 'r
  posts_collector :: "'p list"

text \<open>
  The functions the \<open>try\<close> block of \<open>py_collect\<close> calls are defined in other files of
  the repository (\<open>option.cc\<close>, \<open>report.cc\<close>, \<open>chain.cc\<close>, \<open>filters.h\<close>,
  \<open>iterators.h\<close>), none of them among the sources. They are parameters here. Each is
  given the arguments of its call site and the state: the wrapper's report shares the
  session with the ambient report, \<open>py_collect\<close> has installed the journal there for
  them, and the ambient report is a global, so nothing in the state is out of their
  reach. Each returns the exception it throws or its result, and the state it leaves in
  either case. A function that works on the wrapper's report returns that report's
  options. \<open>pass_down_posts\<close> stands for \<open>chain_post_handlers\<close> followed by
  \<open>pass_down_posts\<close> over a \<open>journal_posts_iterator\<close> of the wrapper's journal; its
  result is the postings that reached the collector.
\<close>

record ('r, 's, 'x, 'p) collaborators =
  split_arguments ::
    "string \<Rightarrow> ('r, 's, 'x) world \<Rightarrow> (failure + string list) \<times> ('r, 's, 'x) world"
  process_arguments ::
    "string list \<Rightarrow> 'r \<Rightarrow> ('r, 's, 'x) world \<Rightarrow>
       (failure + string list \<times> 'r) \<times> ('r, 's, 'x) world"
  normalize_options ::
    "string \<Rightarrow> 'r \<Rightarrow> ('r, 's, 'x) world \<Rightarrow> (failure + 'r) \<times> ('r, 's, 'x) world"
  parse_query_args ::
    "string list \<Rightarrow> string \<Rightarrow> 'r \<Rightarrow> ('r, 's, 'x) world \<Rightarrow>
       (failure + 'r) \<times> ('r, 's, 'x) world"
  pass_down_posts ::
    "'r \<Rightarrow> addr \<Rightarrow> ('r, 's, 'x) world \<Rightarrow> (failure + 'p list) \<times> ('r, 's, 'x) world"

section \<open>Collecting postings\<close>

text \<open>
  The destructor \<open>~collector_wrapper() { journal.clear_xdata(); }\<close>.
\<close>

definition collector_wrapper_dtor ::
  "('r, 'p) collector_wrapper \<Rightarrow> ('r, 's, 'x) world \<Rightarrow> ('r, 's, 'x) world" where
  "collector_wrapper_dtor coll w =
     w\<lparr>journals := (journals w)(journal coll := clear_xdata (journals w (journal coll)))\<rparr>"

text \<open>
  The \<open>try\<close> block of \<open>py_collect\<close>, run on the options \<open>r\<close> of the wrapper's report and
  on the wrapper's journal, at address \<open>a\<close>: either the exception that left the block or
  the options of the report and the collected postings, and the state the block leaves.
\<close>

definition py_collect_try ::
  "('r, 's, 'x, 'p) collaborators \<Rightarrow> string \<Rightarrow> 'r \<Rightarrow> addr \<Rightarrow> ('r, 's, 'x) world \<Rightarrow>
     (failure + 'r \<times> 'p list) \<times> ('r, 's, 'x) world" where
  "py_collect_try d query r a w =
    (case split_arguments d query w of
       (Inl e, w1) \<Rightarrow> (Inl e, w1)
     | (Inr args, w1) \<Rightarrow>
    (case process_arguments d args r w1 of
       (Inl e, w2) \<Rightarrow> (Inl e, w2)
     | (Inr (remaining, r1), w2) \<Rightarrow>
    (case normalize_options d ''register'' r1 w2 of
       (Inl e, w3) \<Rightarrow> (Inl e, w3)
     | (Inr r2, w3) \<Rightarrow>
    (case parse_query_args d remaining ''@Journal.collect'' r2 w3 of
       (Inl e, w4) \<Rightarrow> (Inl e, w4)
     | (Inr r3, w4) \<Rightarrow>
    (case pass_down_posts d r3 a w4 of
       (Inl e, w5) \<Rightarrow> (Inl e, w5)
     | (Inr posts, w5) \<Rightarrow> (Inr (r3, posts), w5))))))"

text \<open>
  \<open>py_collect(journal_t& journal, const string& query)\<close>. When the \<open>try\<close> block throws,
  the handler puts the saved journal back into the slot and rethrows; the wrapper, held
  by the local \<open>shared_ptr\<close> alone, is then destroyed while the exception unwinds. The
  slot is emptied with \<open>release()\<close> before the saved journal is put back, so whatever it
  holds by then is dropped.
\<close>

definition py_collect ::
  "('r, 's, 'x, 'p) collaborators \<Rightarrow> addr \<Rightarrow> string \<Rightarrow> ('r, 's, 'x) world \<Rightarrow>
     (failure + ('r, 'p) collector_wrapper) \<times> ('r, 's, 'x) world" where
  "py_collect d a query w =
    (if has_xdata (journals w a) then (Inl RuntimeError, w)
     else
       (let coll = \<lparr>journal = a, report = default_scope w, posts_collector = []\<rparr>;
            save_journal = session_journal w;
            w1 = w\<lparr>session_journal := Some a\<rparr>
        in case py_collect_try d query (report coll) (journal coll) w1 of
             (Inl e, w2) \<Rightarrow>
               (let w3 = w2\<lparr>session_journal := save_journal\<rparr>
                in (Inl e, collector_wrapper_dtor coll w3))
           | (Inr (r', posts), w2) \<Rightarrow>
               (let w3 = w2\<lparr>session_journal := save_journal\<rparr>
                in (Inr (coll\<lparr>report := r', posts_collector := posts\<rparr>), w3))))"



text \<open>
  \<open>posts_getitem(collector_wrapper& collector, long i)\<close> reads \<open>posts[i]\<close> with
  \<open>std::vector::operator[]\<close>, which checks nothing: outside the vector the read is
  undefined. It then writes four lines to \<open>std::cerr\<close> (the \<open>typeid\<close> names of the
  posting and of its account, which the implementation chooses); the second component
  counts them.
\<close>

definition posts_getitem ::
  "('r, 'p) collector_wrapper \<Rightarrow> long \<Rightarrow> (failure + 'p) \<times> nat" where
  "posts_getitem collector i =
    (if 0 \<le> sint i \<and> sint i < int (length (posts_collector collector))
     then (Inr (posts_collector collector ! nat (sint i)), 4)
     else (Inl UndefinedBehaviour, 0))"

section \<open>Concrete inputs\<close>

text \<open>
  A journal of two transactions and one of three, an account with two children, a
  collector holding two postings, and the most negative \<open>long\<close>.
\<close>

definition two_xacts :: "nat journal" where
  "two_xacts = \<lparr>xacts = [10, 20], xdata = {}\<rparr>"

definition three_xacts :: "nat journal" where
  "three_xacts = \<lparr>xacts = [10, 20, 30], xdata = {}\<rparr>"

definition two_children :: "nat account" where
  "two_children = \<lparr>accounts = [(''Assets'', 10), (''Expenses'', 20)]\<rparr>"

definition two_posts :: "(unit, nat) collector_wrapper" where
  "two_posts = \<lparr>journal = 1, report = (), posts_collector = [10, 20]\<rparr>"

definition long_min :: long where
  "long_min = - 9223372036854775808"

text \<open>
  Collaborators for a report that is a list of words and a session whose other member is
  a word. \<open>matching\<close> fails to split the query \<open>''"''\<close> (an unterminated quote), lets a
  handler throw while walking when the query is \<open>''throw''\<close>, and otherwise annotates the
  master account (item 0) and every transaction of the journal and collects the
  transactions. The handler that throws has emptied the slot of the session before.
\<close>

definition annotate :: "addr \<Rightarrow> nat set \<Rightarrow> ('r, 's, 'x) world \<Rightarrow> ('r, 's, 'x) world" where
  "annotate a items w = w\<lparr>journals := (journals w)(a := (journals w a)\<lparr>xdata := items\<rparr>)\<rparr>"

definition matching :: "(string list, string, nat, nat) collaborators" where
  "matching =
    \<lparr>split_arguments = (\<lambda>q w.
       (if q = ''\"'' then Inl (Thrown ''unterminated'') else Inr [q], w)),
     process_arguments = (\<lambda>args r w. (Inr (args, r), w)),
     normalize_options = (\<lambda>verb r w. (Inr (verb # r), w)),
     parse_query_args = (\<lambda>args whence r w. (Inr (args @ r), w)),
     pass_down_posts = (\<lambda>r a w.
       if ''throw'' \<in> set r
       then (Inl (Thrown ''handler''), (annotate a {7} w)\<lparr>session_journal := None\<rparr>)
       else (Inr (xacts (journals w a)),
             annotate a (insert 0 (set (xacts (journals w a)))) w))\<rparr>"

definition quiet_world :: "(string list, string, nat) world" where
  "quiet_world =
    \<lparr>default_scope = [''base''], session_journal = Some 3, session_other = ''USD'',
     journals = (\<lambda>_. two_xacts)\<rparr>"

definition busy_world :: "(string list, string, nat) world" where
  "busy_world =
    \<lparr>default_scope = [''base''], session_journal = Some 3, session_other = ''USD'',
     journals = (\<lambda>_. two_xacts\<lparr>xdata := {10}\<rparr>)\<rparr>"

section \<open>Facts about the machine integers and the walk\<close>

lemma walk_eq: "walk x e n = (e + nat x, n + nat x)"
proof (induction x e n rule: walk.induct)
  case (1 x e n)
  show ?case
  proof (cases "0 \<le> x - 1")
    case True
    then have "walk x e n = walk (x - 1) (Suc e) (Suc n)"
      by (subst walk.simps) simp
    also have "\<dots> = (Suc e + nat (x - 1), Suc n + nat (x - 1))"
      using 1 True by simp
    also have "\<dots> = (e + nat x, n + nat x)"
      using True by (simp add: nat_diff_distrib')
    finally show ?thesis .
  next
    case False
    then show ?thesis by (subst walk.simps) simp
  qed
qed

lemma sint_succ:
  assumes "sint (w + 1 :: long) \<noteq> LONG_MIN"
  shows "sint (w + 1) = sint w + 1"
proof -
  have r: "- (2 ^ 63) \<le> sint w" "sint w < 2 ^ 63"
    using sint_ge [of w] sint_lt [of w] by simp_all
  have e: "sint (w + 1) = signed_take_bit 63 (sint w + 1)"
    by (simp add: sint_word_add)
  show ?thesis
  proof (cases "sint w + 1 < 2 ^ 63")
    case True
    then show ?thesis using r e by (simp add: signed_take_bit_int_eq_self)
  next
    case False
    then have "sint w = 2 ^ 63 - 1" using r by simp
    then have "sint (w + 1) = LONG_MIN"
      using e by (simp add: LONG_MIN_def)
    then show ?thesis using assms by simp
  qed
qed

lemma sint_of_nat_long: "k < 2 ^ 63 \<Longrightarrow> sint (of_nat k :: long) = int k"
  by (simp add: signed_of_nat signed_take_bit_int_eq_self)

lemma sint_neg_of_nat_long:
  assumes "k < 2 ^ 63"
  shows "sint (- of_nat k :: long) = - int k"
proof -
  have "sint (- of_nat k :: long) = sint (of_int (- int k) :: long)" by simp
  also have "\<dots> = signed_take_bit 63 (- int k)" by (simp only: signed_of_int) simp
  also have "\<dots> = - int k" using assms by (simp add: signed_take_bit_int_eq_self)
  finally show ?thesis .
qed

lemma sint_long_min: "sint long_min = LONG_MIN"
  by (simp add: long_min_def LONG_MIN_def)

lemma in_bounds_of_nat:
  assumes "k < n" and "n < 2 ^ 63"
  shows "in_bounds (int n) (of_nat k)" and "resolved (int n) (of_nat k) = k"
  using assms by (simp_all add: in_bounds_def resolved_def sint_of_nat_long LONG_MIN_def)

lemma in_bounds_neg_of_nat:
  assumes "1 \<le> k" and "k < n" and "n < 2 ^ 63"
  shows "in_bounds (int n) (- of_nat k)" and "resolved (int n) (- of_nat k) = n - k"
  using assms
  by (simp_all add: in_bounds_def resolved_def sint_neg_of_nat_long LONG_MIN_def
      nat_diff_distrib')

lemma resolved_less: "in_bounds len i \<Longrightarrow> int (resolved len i) < len"
  by (auto simp: in_bounds_def resolved_def)

lemma resolved_succ:
  assumes "in_bounds len l" and "in_bounds len (l + 1)" and "l \<noteq> - 1"
  shows "resolved len (l + 1) = Suc (resolved len l)"
proof -
  have s: "sint (l + 1) = sint l + 1"
    by (rule sint_succ) (use assms(2) in \<open>simp add: in_bounds_def\<close>)
  have "sint l \<noteq> - 1"
    using assms(3) by (metis sint_n1 signed_word_eqI)
  then show ?thesis
    using assms(1,2) s by (auto simp: resolved_def in_bounds_def)
qed

section \<open>The three paths of an accessor\<close>

lemma deref_map: "deref (map f xs) p = map_sum id f (deref xs p)"
  by (simp add: deref_def)

text \<open>\<open>accounts_getitem\<close> is \<open>xacts_getitem\<close> on the children the map's iterator visits.\<close>

lemma accounts_getitem_xacts_getitem:
  "accounts_getitem a account i s =
     xacts_getitem a \<lparr>xacts = map snd (accounts account), xdata = X\<rparr> i s"
  by (simp add: accounts_getitem_def xacts_getitem_def deref_map Let_def
      split: option.splits prod.splits)

text \<open>
  Every index but \<open>LONG_MIN\<close> whose absolute value reaches the length is refused before
  the statics are read, and the statics stay as they were.
\<close>

lemma xacts_getitem_rejects:
  assumes "sint i \<noteq> LONG_MIN" and "int (length (xacts j)) \<le> \<bar>sint i\<bar>"
  shows "xacts_getitem a j i s =
    \<lparr>outcome = Inl IndexError, increments = 0, statics_after = s\<rparr>"
  using assms by (simp add: xacts_getitem_def labs_def)

lemma xacts_getitem_fast:
  assumes "in_bounds (int (length (xacts j))) i"
    and "last_container s = Some a" and "i = last_index s + 1"
  shows "xacts_getitem a j i s =
    \<lparr>outcome = deref (xacts j) (Suc (elem s)), increments = 1,
     statics_after = s\<lparr>last_index := i, elem := Suc (elem s)\<rparr>\<rparr>"
  using assms by (simp add: xacts_getitem_def labs_def in_bounds_def)

lemma xacts_getitem_slow:
  assumes "in_bounds (int (length (xacts j))) i"
    and "\<not> (last_container s = Some a \<and> i = last_index s + 1)"
  shows "xacts_getitem a j i s =
    \<lparr>outcome = Inr (xacts j ! resolved (int (length (xacts j))) i),
     increments = resolved (int (length (xacts j))) i,
     statics_after = \<lparr>last_index = i, last_container = Some a,
       elem = resolved (int (length (xacts j))) i\<rparr>\<rparr>"
proof -
  have "resolved (int (length (xacts j))) i < length (xacts j)"
    using resolved_less [OF assms(1)] by simp
  then show ?thesis
    using assms
    by (auto simp: xacts_getitem_def labs_def in_bounds_def walk_eq deref_def
        resolved_def Let_def)
qed

text \<open>
  With statics that agree with the containers, a call that passes the bounds check
  returns the element at the resolved position and leaves statics that agree again,
  unless it asks for index 0 right after index -1 of the same container.
\<close>

lemma xacts_getitem_coherent:
  assumes "coherent contents s" and "contents a = xacts j"
    and "in_bounds (int (length (xacts j))) i"
    and "\<not> (last_container s = Some a \<and> last_index s = - 1 \<and> i = 0)"
  shows "outcome (xacts_getitem a j i s) = Inr (xacts j ! resolved (int (length (xacts j))) i)"
    and "coherent contents (statics_after (xacts_getitem a j i s))"
proof -
  let ?len = "int (length (xacts j))"
  have lt: "resolved ?len i < length (xacts j)"
    using resolved_less [OF assms(3)] by simp
  have fast: "Suc (elem s) = resolved ?len i"
    if t: "last_container s = Some a \<and> i = last_index s + 1"
  proof -
    have ne: "last_index s \<noteq> - 1" using assms(4) t by auto
    have "in_bounds ?len (last_index s)" "elem s = resolved ?len (last_index s)"
      using assms(1,2) t by (simp_all add: coherent_def)
    then show ?thesis
      using resolved_succ [of ?len "last_index s"] assms(3) t ne by simp
  qed
  show "outcome (xacts_getitem a j i s) = Inr (xacts j ! resolved ?len i)"
  proof (cases "last_container s = Some a \<and> i = last_index s + 1")
    case True
    then show ?thesis
      using fast lt assms(3) by (simp add: xacts_getitem_fast deref_def)
  next
    case False
    then show ?thesis using assms(3) by (simp add: xacts_getitem_slow)
  qed
  show "coherent contents (statics_after (xacts_getitem a j i s))"
  proof (cases "last_container s = Some a \<and> i = last_index s + 1")
    case True
    then show ?thesis
      using fast assms(2,3) by (simp add: xacts_getitem_fast coherent_def)
  next
    case False
    then show ?thesis using assms(2,3) by (simp add: xacts_getitem_slow coherent_def)
  qed
qed

text \<open>
  Ascending calls that continue after index \<open>m\<close> of the same journal: each takes the
  fast path, and returns the next element when the iterator stood at \<open>m\<close>.
\<close>

lemma xacts_getitem_calls_ascending:
  assumes "length (xacts j) < 2 ^ 63"
  shows "last_container s = Some a \<Longrightarrow> last_index s = of_nat m \<Longrightarrow>
    Suc m + d \<le> length (xacts j) \<Longrightarrow> k < d \<Longrightarrow>
    increments (xacts_getitem_calls a j (map of_nat [Suc m..<Suc m + d]) s ! k) = 1 \<and>
    (elem s = m \<longrightarrow>
      outcome (xacts_getitem_calls a j (map of_nat [Suc m..<Suc m + d]) s ! k)
        = Inr (xacts j ! (Suc m + k)))"
proof (induction d arbitrary: m s k)
  case 0
  then show ?case by simp
next
  case (Suc d)
  let ?i = "of_nat (Suc m) :: long"
  let ?r = "xacts_getitem a j ?i s"
  let ?rest = "xacts_getitem_calls a j (map of_nat [Suc (Suc m)..<Suc (Suc m) + d])
    (statics_after ?r)"
  have ib: "in_bounds (int (length (xacts j))) ?i"
    by (rule in_bounds_of_nat) (use Suc.prems assms in simp_all)
  have step: "?i = last_index s + 1"
    using Suc.prems by simp
  have r: "?r = \<lparr>outcome = deref (xacts j) (Suc (elem s)), increments = 1,
     statics_after = s\<lparr>last_index := ?i, elem := Suc (elem s)\<rparr>\<rparr>"
    using ib Suc.prems(1) step by (rule xacts_getitem_fast)
  have upt: "[Suc m..<Suc m + Suc d] = Suc m # [Suc (Suc m)..<Suc (Suc m) + d]"
    by (simp add: upt_conv_Cons)
  have calls: "xacts_getitem_calls a j (map of_nat [Suc m..<Suc m + Suc d]) s = ?r # ?rest"
    by (simp only: upt list.map xacts_getitem_calls.simps Let_def)
  show ?case
  proof (cases k)
    case 0
    have "Suc (elem s) < length (xacts j)" if "elem s = m"
      using that Suc.prems(3) by simp
    then show ?thesis
      unfolding calls 0 by (simp add: r deref_def del: of_nat_Suc)
  next
    case (Suc k')
    have "increments (?rest ! k') = 1 \<and>
      (elem (statics_after ?r) = Suc m \<longrightarrow>
        outcome (?rest ! k') = Inr (xacts j ! (Suc (Suc m) + k')))"
      by (rule Suc.IH) (use Suc.prems Suc in \<open>simp_all add: r del: of_nat_Suc\<close>)
    then show ?thesis
      unfolding calls Suc by (simp add: r del: of_nat_Suc)
  qed
qed

lemma xacts_getitem_statics_after:
  assumes "in_bounds (int (length (xacts j))) i"
  shows "last_container (statics_after (xacts_getitem a j i s)) = Some a"
    and "last_index (statics_after (xacts_getitem a j i s)) = i"
proof -
  show "last_container (statics_after (xacts_getitem a j i s)) = Some a"
  proof (cases "last_container s = Some a \<and> i = last_index s + 1")
    case True
    then show ?thesis using assms by (simp add: xacts_getitem_fast)
  next
    case False
    then show ?thesis using assms by (simp add: xacts_getitem_slow)
  qed
  show "last_index (statics_after (xacts_getitem a j i s)) = i"
  proof (cases "last_container s = Some a \<and> i = last_index s + 1")
    case True
    then show ?thesis using assms by (simp add: xacts_getitem_fast)
  next
    case False
    then show ?thesis using assms by (simp add: xacts_getitem_slow)
  qed
qed

lemma xacts_getitem_calls_upt:
  assumes "0 < length (xacts j)"
  shows "xacts_getitem_calls a j (map of_nat [0..<length (xacts j)]) s =
    xacts_getitem a j 0 s #
    xacts_getitem_calls a j (map of_nat [Suc 0..<Suc 0 + (length (xacts j) - 1)])
      (statics_after (xacts_getitem a j 0 s))"
proof -
  have "[0..<length (xacts j)] = 0 # [Suc 0..<Suc 0 + (length (xacts j) - 1)]"
    using assms by (simp add: upt_conv_Cons)
  then show ?thesis by (simp add: Let_def)
qed

lemma in_bounds_zero: "0 < n \<Longrightarrow> in_bounds (int n) 0"
  by (simp add: in_bounds_def LONG_MIN_def)

lemma xacts_getitem_calls_after_first:
  assumes n: "length (xacts j) < 2 ^ 63" and k: "Suc k' < length (xacts j)"
  shows "increments (xacts_getitem_calls a j (map of_nat [0..<length (xacts j)]) s ! Suc k')
      = 1"
    and "elem (statics_after (xacts_getitem a j 0 s)) = 0 \<Longrightarrow>
      outcome (xacts_getitem_calls a j (map of_nat [0..<length (xacts j)]) s ! Suc k')
        = Inr (xacts j ! Suc k')"
proof -
  let ?n = "length (xacts j)"
  let ?s1 = "statics_after (xacts_getitem a j 0 s)"
  let ?rest = "xacts_getitem_calls a j (map of_nat [Suc 0..<Suc 0 + (?n - 1)]) ?s1"
  have pos: "0 < ?n" using k by auto
  have z: "in_bounds (int ?n) 0"
    using pos by (rule in_bounds_zero)
  have lc: "last_container ?s1 = Some a"
    using z by (rule xacts_getitem_statics_after(1))
  have li: "last_index ?s1 = of_nat 0"
    using xacts_getitem_statics_after(2) [OF z] by simp
  have bound: "Suc 0 + (?n - 1) \<le> ?n" using pos by auto
  have kd: "k' < ?n - 1" using k by auto
  have nth: "xacts_getitem_calls a j (map of_nat [0..<?n]) s ! Suc k' = ?rest ! k'"
    by (simp only: xacts_getitem_calls_upt [OF pos] nth_Cons_Suc)
  have asc: "increments (?rest ! k') = 1 \<and>
      (elem ?s1 = 0 \<longrightarrow> outcome (?rest ! k') = Inr (xacts j ! (Suc 0 + k')))"
    using n lc li bound kd by (rule xacts_getitem_calls_ascending)
  show "increments (xacts_getitem_calls a j (map of_nat [0..<?n]) s ! Suc k') = 1"
    using asc by (simp only: nth)
  show "outcome (xacts_getitem_calls a j (map of_nat [0..<?n]) s ! Suc k')
      = Inr (xacts j ! Suc k')" if "elem ?s1 = 0"
    using asc that by (simp only: nth) simp
qed

lemma xacts_getitem_initial_zero:
  assumes "0 < length (xacts j)"
  shows "xacts_getitem a j 0 initial_statics =
    \<lparr>outcome = Inr (xacts j ! 0), increments = 0,
     statics_after = \<lparr>last_index = 0, last_container = Some a, elem = 0\<rparr>\<rparr>"
proof -
  have z: "in_bounds (int (length (xacts j))) 0"
    using assms by (rule in_bounds_zero)
  have r: "resolved (int (length (xacts j))) 0 = 0"
    by (simp add: resolved_def)
  show ?thesis
    using xacts_getitem_slow [OF z, of initial_statics a]
    by (simp add: initial_statics_def r)
qed

section \<open>The claims about the indexed accessors\<close>

text \<open>
  C2. The claim: with content unchanged since the cache was built, every valid index
  \<open>i\<close> in \<open>[0, length)\<close> gives the \<open>i\<close>-th element of the forward traversal under every
  access pattern, negative indices included. The code stores the index as it was asked
  for, not as it was resolved: after index -1 the statics hold \<open>last_index = -1\<close> and an
  iterator at the last element, so index 0 on the same container meets
  \<open>i == last_index + 1\<close>, takes the fast path, moves the iterator to \<open>end()\<close> and
  dereferences it. On a journal of the two transactions 10 and 20, and on an account with
  two children, the first call returns the last element and the second, which should
  return the first, is undefined.
\<close>

theorem getitem_zero_after_minus_one:
  "outcome (xacts_getitem 5 two_xacts (- 1) initial_statics) = Inr 20 \<and>
   outcome (xacts_getitem 5 two_xacts 0
     (statics_after (xacts_getitem 5 two_xacts (- 1) initial_statics)))
     = Inl UndefinedBehaviour \<and>
   outcome (accounts_getitem 5 two_children (- 1) initial_statics) = Inr 20 \<and>
   outcome (accounts_getitem 5 two_children 0
     (statics_after (accounts_getitem 5 two_children (- 1) initial_statics)))
     = Inl UndefinedBehaviour"
  by (simp add: xacts_getitem_def accounts_getitem_def two_xacts_def two_children_def
      initial_statics_def labs_def LONG_MIN_def walk.simps deref_def)

text \<open>
  C3, as the claim states it, at a journal of two transactions and \<open>k = 2\<close>: index -2
  is refused, while index \<open>2 - 2 = 0\<close> returns the first transaction.
\<close>

theorem xacts_getitem_minus_length_refused:
  "outcome (xacts_getitem 5 two_xacts (- 2) initial_statics) = Inl IndexError \<and>
   outcome (xacts_getitem 5 two_xacts 0 initial_statics) = Inr 10"
  by (simp add: xacts_getitem_def two_xacts_def initial_statics_def labs_def LONG_MIN_def
      walk.simps deref_def)

text \<open>
  C3, amended. For a journal of \<open>n\<close> transactions, \<open>n\<close> within the range of a \<open>long\<close>,
  and statics that agree with the containers (the content is unchanged since the cache
  was built, and no earlier call was undefined): for every \<open>k\<close> with \<open>1 \<le> k < n\<close> the
  index \<open>-k\<close> succeeds and returns the element at \<open>n - k\<close>, the one index \<open>n - k\<close>
  returns; for \<open>k = n\<close> the index \<open>-k\<close> is refused with \<open>IndexError\<close>, since the test
  \<open>labs(i) >= len\<close> refuses every index whose absolute value reaches the length.
\<close>

theorem xacts_getitem_negative_index:
  assumes "coherent contents s" and "contents a = xacts j"
    and "length (xacts j) < 2 ^ 63" and "1 \<le> k" and "k \<le> length (xacts j)"
  shows "(k < length (xacts j) \<longrightarrow>
      outcome (xacts_getitem a j (- of_nat k) s) = Inr (xacts j ! (length (xacts j) - k)) \<and>
      outcome (xacts_getitem a j (of_nat (length (xacts j) - k)) s)
        = Inr (xacts j ! (length (xacts j) - k))) \<and>
    (k = length (xacts j) \<longrightarrow>
      outcome (xacts_getitem a j (- of_nat k) s) = Inl IndexError)"
proof (intro conjI impI)
  let ?n = "length (xacts j)"
  assume lt: "k < ?n"
  have neg: "in_bounds (int ?n) (- of_nat k)" "resolved (int ?n) (- of_nat k) = ?n - k"
    using in_bounds_neg_of_nat [OF assms(4) lt assms(3)] by simp_all
  have pos: "in_bounds (int ?n) (of_nat (?n - k))" "resolved (int ?n) (of_nat (?n - k)) = ?n - k"
    using in_bounds_of_nat [of "?n - k" ?n] assms(3,4) lt by simp_all
  have "sint (- of_nat k :: long) \<noteq> 0"
    using assms(3,4) lt by (simp add: sint_neg_of_nat_long)
  then have nz: "(- of_nat k :: long) \<noteq> 0" by auto
  have "sint (of_nat (?n - k) :: long) = int (?n - k)"
    by (rule sint_of_nat_long) (use assms(3) in simp)
  then have "sint (of_nat (?n - k) :: long) \<noteq> 0"
    using lt by simp
  then have pz: "(of_nat (?n - k) :: long) \<noteq> 0" by auto
  show "outcome (xacts_getitem a j (- of_nat k) s) = Inr (xacts j ! (?n - k))"
    using xacts_getitem_coherent(1) [OF assms(1,2) neg(1)] nz neg(2) by simp
  show "outcome (xacts_getitem a j (of_nat (?n - k)) s) = Inr (xacts j ! (?n - k))"
    using xacts_getitem_coherent(1) [OF assms(1,2) pos(1)] pz pos(2) by simp
next
  assume eq: "k = length (xacts j)"
  have "sint (- of_nat k :: long) = - int k"
    using assms(3) eq by (simp add: sint_neg_of_nat_long)
  then have "xacts_getitem a j (- of_nat k) s =
      \<lparr>outcome = Inl IndexError, increments = 0, statics_after = s\<rparr>"
    using assms(3) eq by (intro xacts_getitem_rejects) (simp_all add: LONG_MIN_def)
  then show "outcome (xacts_getitem a j (- of_nat k) s) = Inl IndexError" by simp
qed

theorem xacts_getitem_negative_index_witness:
  "coherent (\<lambda>_. xacts three_xacts) initial_statics \<and>
   length (xacts three_xacts) < 2 ^ 63 \<and> (1::nat) < length (xacts three_xacts) \<and>
   outcome (xacts_getitem 5 three_xacts (- 1) initial_statics) = Inr 30 \<and>
   outcome (xacts_getitem 5 three_xacts 2 initial_statics) = Inr 30"
proof -
  have c: "coherent (\<lambda>_. xacts three_xacts) initial_statics"
    by (simp add: coherent_def initial_statics_def)
  have l: "length (xacts three_xacts) = 3"
    by (simp add: three_xacts_def)
  show ?thesis
    using xacts_getitem_negative_index
      [where contents = "\<lambda>_. xacts three_xacts" and s = initial_statics and a = 5
        and j = three_xacts and k = 1, OF c] c
    by (simp add: l) (simp add: three_xacts_def)
qed

text \<open>
  C7. The claim: every index whose absolute value reaches the length fails with
  \<open>IndexError\<close>, whatever the statics hold. The bounds check compares \<open>labs(i)\<close> with the
  length, and \<open>labs(LONG_MIN)\<close> overflows: the call is undefined before any exception is
  set (where \<open>labs\<close> returns \<open>LONG_MIN\<close> the test \<open>labs(i) >= len\<close> is false and the
  walk returns the first element). Every other such index is refused before the statics
  are read, as \<open>xacts_getitem_rejects\<close> shows.
\<close>

theorem getitem_long_min:
  "sint long_min = LONG_MIN \<and>
   int (length (xacts two_xacts)) \<le> \<bar>sint long_min\<bar> \<and>
   outcome (xacts_getitem 5 two_xacts long_min initial_statics) = Inl UndefinedBehaviour \<and>
   outcome (accounts_getitem 5 two_children long_min initial_statics)
     = Inl UndefinedBehaviour"
  by (simp add: sint_long_min xacts_getitem_def accounts_getitem_def labs_def)
     (simp add: LONG_MIN_def two_xacts_def)

text \<open>
  C9. A call that passes the bounds check either finds its own container in the statics
  and the index one above the cached one, and then increments the cached iterator once
  and returns what it stands at; or it walks from \<open>begin()\<close> to the resolved index, with
  as many increments as that index (fewer than the length), and stores the container,
  the index and the iterator in the statics. So the ascending calls with the indices
  \<open>0, 1, \<dots>, length - 1\<close> on one journal, whatever the statics before the first, make one
  increment each after the first; from the initial statics the first makes none and the
  \<open>k\<close>-th call returns the \<open>k\<close>-th transaction.
\<close>

theorem xacts_getitem_traversal_steps:
  assumes "in_bounds (int (length (xacts j))) i"
  shows "(last_container s = Some a \<and> i = last_index s + 1 \<longrightarrow>
      xacts_getitem a j i s =
        \<lparr>outcome = deref (xacts j) (Suc (elem s)), increments = 1,
         statics_after = s\<lparr>last_index := i, elem := Suc (elem s)\<rparr>\<rparr>) \<and>
    (\<not> (last_container s = Some a \<and> i = last_index s + 1) \<longrightarrow>
      xacts_getitem a j i s =
        \<lparr>outcome = Inr (xacts j ! resolved (int (length (xacts j))) i),
         increments = resolved (int (length (xacts j))) i,
         statics_after = \<lparr>last_index = i, last_container = Some a,
           elem = resolved (int (length (xacts j))) i\<rparr>\<rparr> \<and>
      resolved (int (length (xacts j))) i < length (xacts j)) \<and>
    (\<forall>k. length (xacts j) < 2 ^ 63 \<and> 1 \<le> k \<and> k < length (xacts j) \<longrightarrow>
      increments (xacts_getitem_calls a j (map of_nat [0..<length (xacts j)]) s ! k) = 1) \<and>
    (\<forall>k. length (xacts j) < 2 ^ 63 \<and> k < length (xacts j) \<longrightarrow>
      increments (xacts_getitem_calls a j (map of_nat [0..<length (xacts j)])
        initial_statics ! k) = (if k = 0 then 0 else 1) \<and>
      outcome (xacts_getitem_calls a j (map of_nat [0..<length (xacts j)])
        initial_statics ! k) = Inr (xacts j ! k))"
proof (intro conjI impI allI)
  assume "last_container s = Some a \<and> i = last_index s + 1"
  then show "xacts_getitem a j i s =
      \<lparr>outcome = deref (xacts j) (Suc (elem s)), increments = 1,
       statics_after = s\<lparr>last_index := i, elem := Suc (elem s)\<rparr>\<rparr>"
    using assms by (simp add: xacts_getitem_fast)
next
  assume "\<not> (last_container s = Some a \<and> i = last_index s + 1)"
  then show "xacts_getitem a j i s =
      \<lparr>outcome = Inr (xacts j ! resolved (int (length (xacts j))) i),
       increments = resolved (int (length (xacts j))) i,
       statics_after = \<lparr>last_index = i, last_container = Some a,
         elem = resolved (int (length (xacts j))) i\<rparr>\<rparr>"
    using assms by (rule xacts_getitem_slow [rotated])
next
  show "resolved (int (length (xacts j))) i < length (xacts j)"
    using resolved_less [OF assms] by simp
next
  fix k
  assume k: "length (xacts j) < 2 ^ 63 \<and> 1 \<le> k \<and> k < length (xacts j)"
  then obtain k' where k': "k = Suc k'" "Suc k' < length (xacts j)"
    by (cases k) auto
  show "increments (xacts_getitem_calls a j (map of_nat [0..<length (xacts j)]) s ! k) = 1"
    unfolding k'(1) using k k'(2) by (intro xacts_getitem_calls_after_first(1)) simp_all
next
  fix k
  assume k: "length (xacts j) < 2 ^ 63 \<and> k < length (xacts j)"
  then have pos: "0 < length (xacts j)" by auto
  show "increments (xacts_getitem_calls a j (map of_nat [0..<length (xacts j)])
      initial_statics ! k) = (if k = 0 then 0 else 1)"
  proof (cases k)
    case 0
    show ?thesis
      unfolding 0
      by (simp only: xacts_getitem_calls_upt [OF pos] nth_Cons_0
          xacts_getitem_initial_zero [OF pos]) simp
  next
    case (Suc k')
    then have "increments (xacts_getitem_calls a j (map of_nat [0..<length (xacts j)])
        initial_statics ! Suc k') = 1"
      using k by (intro xacts_getitem_calls_after_first(1)) simp_all
    then show ?thesis using Suc by simp
  qed
next
  fix k
  assume k: "length (xacts j) < 2 ^ 63 \<and> k < length (xacts j)"
  then have pos: "0 < length (xacts j)" by auto
  have e: "elem (statics_after (xacts_getitem a j 0 initial_statics)) = 0"
    by (simp add: xacts_getitem_initial_zero [OF pos])
  show "outcome (xacts_getitem_calls a j (map of_nat [0..<length (xacts j)])
      initial_statics ! k) = Inr (xacts j ! k)"
  proof (cases k)
    case 0
    show ?thesis
      unfolding 0
      by (simp only: xacts_getitem_calls_upt [OF pos] nth_Cons_0
          xacts_getitem_initial_zero [OF pos]) simp
  next
    case (Suc k')
    show ?thesis
      unfolding Suc using k Suc e
      by (intro xacts_getitem_calls_after_first(2)) simp_all
  qed
qed

theorem xacts_getitem_traversal_steps_witness:
  "in_bounds (int (length (xacts three_xacts))) 1 \<and>
   xacts_getitem 5 three_xacts 1 (statics_after (xacts_getitem 5 three_xacts 0 initial_statics)) =
     \<lparr>outcome = Inr 20, increments = 1,
      statics_after = \<lparr>last_index = 1, last_container = Some 5, elem = 1\<rparr>\<rparr> \<and>
   xacts_getitem 5 three_xacts 1 initial_statics =
     \<lparr>outcome = Inr 20, increments = 1,
      statics_after = \<lparr>last_index = 1, last_container = Some 5, elem = 1\<rparr>\<rparr> \<and>
   map increments (xacts_getitem_calls 5 three_xacts [0, 1, 2] initial_statics) = [0, 1, 1] \<and>
   map outcome (xacts_getitem_calls 5 three_xacts [0, 1, 2] initial_statics)
     = [Inr 10, Inr 20, Inr 30]"
proof -
  have b: "in_bounds (int (length (xacts three_xacts))) 1"
    by (simp add: in_bounds_def three_xacts_def LONG_MIN_def)
  have s0: "statics_after (xacts_getitem 5 three_xacts 0 initial_statics) =
      \<lparr>last_index = 0, last_container = Some 5, elem = 0\<rparr>"
    by (simp add: xacts_getitem_def three_xacts_def initial_statics_def labs_def LONG_MIN_def
        walk.simps)
  have fast: "xacts_getitem 5 three_xacts 1
      (statics_after (xacts_getitem 5 three_xacts 0 initial_statics)) =
     \<lparr>outcome = Inr 20, increments = 1,
      statics_after = \<lparr>last_index = 1, last_container = Some 5, elem = 1\<rparr>\<rparr>"
    using xacts_getitem_traversal_steps [OF b,
        where s = "statics_after (xacts_getitem 5 three_xacts 0 initial_statics)" and a = 5]
    by (simp add: s0) (simp add: deref_def three_xacts_def)
  have slow: "xacts_getitem 5 three_xacts 1 initial_statics =
     \<lparr>outcome = Inr 20, increments = 1,
      statics_after = \<lparr>last_index = 1, last_container = Some 5, elem = 1\<rparr>\<rparr>"
    using xacts_getitem_traversal_steps [OF b, where s = initial_statics and a = 5]
    by (simp add: initial_statics_def resolved_def) (simp add: three_xacts_def)
  have calls: "xacts_getitem_calls 5 three_xacts [0, 1, 2] initial_statics =
      [\<lparr>outcome = Inr 10, increments = 0,
        statics_after = \<lparr>last_index = 0, last_container = Some 5, elem = 0\<rparr>\<rparr>,
       \<lparr>outcome = Inr 20, increments = 1,
        statics_after = \<lparr>last_index = 1, last_container = Some 5, elem = 1\<rparr>\<rparr>,
       \<lparr>outcome = Inr 30, increments = 1,
        statics_after = \<lparr>last_index = 2, last_container = Some 5, elem = 2\<rparr>\<rparr>]"
    by (simp add: xacts_getitem_def three_xacts_def initial_statics_def labs_def LONG_MIN_def
        walk.simps deref_def)
  show ?thesis
    unfolding calls using b fast slow by simp
qed

section \<open>The exits of \<open>py_collect\<close>\<close>

lemma py_collect_throws:
  assumes "\<not> has_xdata (journals w a)"
    and "py_collect_try d query (default_scope w) a (w\<lparr>session_journal := Some a\<rparr>)
      = (Inl e, w2)"
  shows "py_collect d a query w =
    (Inl e, w2\<lparr>session_journal := session_journal w,
       journals := (journals w2)(a := clear_xdata (journals w2 a))\<rparr>)"
  using assms by (simp add: py_collect_def collector_wrapper_dtor_def)

lemma py_collect_returns:
  assumes "\<not> has_xdata (journals w a)"
    and "py_collect_try d query (default_scope w) a (w\<lparr>session_journal := Some a\<rparr>)
      = (Inr (r, posts), w2)"
  shows "py_collect d a query w =
    (Inr \<lparr>journal = a, report = r, posts_collector = posts\<rparr>,
     w2\<lparr>session_journal := session_journal w\<rparr>)"
  using assms by (simp add: py_collect_def)

lemma py_collect_exits:
  obtains (pending) "has_xdata (journals w a)"
      and "py_collect d a query w = (Inl RuntimeError, w)"
    | (throws) e w2 where "\<not> has_xdata (journals w a)"
      and "py_collect_try d query (default_scope w) a (w\<lparr>session_journal := Some a\<rparr>)
        = (Inl e, w2)"
      and "py_collect d a query w =
        (Inl e, w2\<lparr>session_journal := session_journal w,
           journals := (journals w2)(a := clear_xdata (journals w2 a))\<rparr>)"
    | (returns) r posts w2 where "\<not> has_xdata (journals w a)"
      and "py_collect_try d query (default_scope w) a (w\<lparr>session_journal := Some a\<rparr>)
        = (Inr (r, posts), w2)"
      and "py_collect d a query w =
        (Inr \<lparr>journal = a, report = r, posts_collector = posts\<rparr>,
         w2\<lparr>session_journal := session_journal w\<rparr>)"
proof (cases "has_xdata (journals w a)")
  case True
  then have "py_collect d a query w = (Inl RuntimeError, w)"
    by (simp add: py_collect_def)
  with True show ?thesis by (rule pending)
next
  case False
  obtain res w2 where
    t: "py_collect_try d query (default_scope w) a (w\<lparr>session_journal := Some a\<rparr>) = (res, w2)"
    by (cases "py_collect_try d query (default_scope w) a (w\<lparr>session_journal := Some a\<rparr>)")
  show ?thesis
  proof (cases res)
    case (Inl e)
    with False t show ?thesis
      by (intro throws [of e w2] py_collect_throws) simp_all
  next
    case (Inr b)
    obtain r posts where "b = (r, posts)" by (cases b)
    with Inr False t show ?thesis
      by (intro returns [of r posts w2] py_collect_returns) simp_all
  qed
qed

lemma collector_wrapper_dtor_journal:
  "journals (collector_wrapper_dtor coll w) (journal coll) = clear_xdata (journals w (journal coll))"
  by (simp add: collector_wrapper_dtor_def)

lemma collector_wrapper_dtor_others:
  "default_scope (collector_wrapper_dtor coll w) = default_scope w"
  "session_journal (collector_wrapper_dtor coll w) = session_journal w"
  "session_other (collector_wrapper_dtor coll w) = session_other w"
  by (simp_all add: collector_wrapper_dtor_def)

lemma has_xdata_clear_xdata: "\<not> has_xdata (clear_xdata j)"
  by (simp add: has_xdata_def clear_xdata_def)

lemma py_collect_after_dtor:
  assumes "py_collect_try d query (default_scope w) (journal coll)
      ((collector_wrapper_dtor coll w)\<lparr>session_journal := Some (journal coll)\<rparr>)
      = (Inr (r, posts), w')"
  shows "py_collect d (journal coll) query (collector_wrapper_dtor coll w) =
    (Inr \<lparr>journal = journal coll, report = r, posts_collector = posts\<rparr>,
     w'\<lparr>session_journal := session_journal w\<rparr>)"
proof -
  have "py_collect d (journal coll) query (collector_wrapper_dtor coll w) =
    (Inr \<lparr>journal = journal coll, report = r, posts_collector = posts\<rparr>,
     w'\<lparr>session_journal := session_journal (collector_wrapper_dtor coll w)\<rparr>)"
  proof (rule py_collect_returns)
    show "\<not> has_xdata (journals (collector_wrapper_dtor coll w) (journal coll))"
      by (simp add: collector_wrapper_dtor_journal has_xdata_clear_xdata)
    show "py_collect_try d query (default_scope (collector_wrapper_dtor coll w)) (journal coll)
        ((collector_wrapper_dtor coll w)\<lparr>session_journal := Some (journal coll)\<rparr>)
        = (Inr (r, posts), w')"
      using assms by (simp add: collector_wrapper_dtor_others)
  qed
  then show ?thesis by (simp add: collector_wrapper_dtor_others)
qed

text \<open>What the collaborators of the concrete inputs give.\<close>

lemma matching_try_assets:
  "py_collect_try matching ''assets'' [''base''] a w =
    (Inr ([''assets'', ''register'', ''base''], xacts (journals w a)),
     annotate a (insert 0 (set (xacts (journals w a)))) w)"
  by (simp add: py_collect_try_def matching_def)

lemma matching_try_quote:
  "py_collect_try matching ''\"'' [''base''] a w = (Inl (Thrown ''unterminated''), w)"
  by (simp add: py_collect_try_def matching_def)

lemma matching_try_throw:
  "py_collect_try matching ''throw'' [''base''] a w =
    (Inl (Thrown ''handler''), (annotate a {7} w)\<lparr>session_journal := None\<rparr>)"
  by (simp add: py_collect_try_def matching_def)



lemma quiet_world_facts:
  "\<not> has_xdata (journals quiet_world 5)" "default_scope quiet_world = [''base'']"
  "session_journal quiet_world = Some 3" "session_other quiet_world = ''USD''"
  "journals quiet_world b = two_xacts"
  by (simp_all add: quiet_world_def has_xdata_def two_xacts_def)

lemma py_collect_matching_assets:
  "py_collect matching 5 ''assets'' quiet_world =
     (Inr \<lparr>journal = 5, report = [''assets'', ''register'', ''base''],
        posts_collector = [10, 20]\<rparr>,
      annotate 5 {0, 10, 20} quiet_world)"
proof -
  have "py_collect_try matching ''assets'' (default_scope quiet_world) 5
      (quiet_world\<lparr>session_journal := Some 5\<rparr>) =
    (Inr ([''assets'', ''register'', ''base''], [10, 20]),
     annotate 5 {0, 10, 20} (quiet_world\<lparr>session_journal := Some 5\<rparr>))"
    by (simp add: quiet_world_facts(2) matching_try_assets)
       (simp add: quiet_world_def two_xacts_def)
  from py_collect_returns [OF quiet_world_facts(1) this]
  show ?thesis by (simp add: annotate_def quiet_world_facts(3))
qed

section \<open>The claims about collecting\<close>

text \<open>
  C1. The claim: \<open>get(i)\<close> of a Collector is checked against \<open>[0, length)\<close> and fails
  with \<open>IndexError\<close> outside. \<open>posts_getitem\<close> reads \<open>posts[i]\<close> unchecked, unlike
  \<open>xacts_getitem\<close> and \<open>accounts_getitem\<close> beside it: on a collector of two postings the
  indices 2 and -1 are undefined reads, no exception is set; index 1 returns the second
  posting (after four lines on \<open>std::cerr\<close>).
\<close>

theorem posts_getitem_unchecked:
  "posts_getitem two_posts 2 = (Inl UndefinedBehaviour, 0) \<and>
   posts_getitem two_posts (- 1) = (Inl UndefinedBehaviour, 0) \<and>
   posts_getitem two_posts 1 = (Inr 20, 4)"
  by (simp add: posts_getitem_def two_posts_def)

text \<open>
  C4. Whatever the exit of \<open>py_collect\<close> (the refusal of a journal that has annotations,
  an exception thrown while the query is split, processed or parsed, an exception thrown
  by a handler during the walk, or the return of the collector), and whatever the
  functions it calls have written, the slot included, the state it leaves has in
  \<open>session.journal\<close> the value that was there before the call. The state returned with
  a failure is the one the caller sees the failure in.
\<close>

theorem py_collect_restores_session_journal:
  "session_journal (snd (py_collect d a query w)) = session_journal w"
  by (cases rule: py_collect_exits [of w a d query]) simp_all

text \<open>
  The three exits at concrete inputs: a return, a query that does not split, and a
  handler that throws after it has emptied the slot.
\<close>

theorem py_collect_restores_session_journal_witness:
  "py_collect matching 5 ''assets'' quiet_world =
     (Inr \<lparr>journal = 5, report = [''assets'', ''register'', ''base''],
        posts_collector = [10, 20]\<rparr>,
      annotate 5 {0, 10, 20} quiet_world) \<and>
   session_journal (snd (py_collect matching 5 ''assets'' quiet_world)) = Some 3 \<and>
   fst (py_collect matching 5 ''\"'' quiet_world) = Inl (Thrown ''unterminated'') \<and>
   session_journal (snd (py_collect matching 5 ''\"'' quiet_world)) = Some 3 \<and>
   fst (py_collect matching 5 ''throw'' quiet_world) = Inl (Thrown ''handler'') \<and>
   session_journal (snd (py_collect matching 5 ''throw'' quiet_world)) = Some 3"
proof -
  note q = quiet_world_facts
  have 2: "fst (py_collect matching 5 ''\"'' quiet_world) = Inl (Thrown ''unterminated'')"
    using py_collect_throws [OF q(1), of matching "''\"''"] q(2)
    by (simp add: matching_try_quote)
  have 3: "fst (py_collect matching 5 ''throw'' quiet_world) = Inl (Thrown ''handler'')"
    using py_collect_throws [OF q(1), of matching "''throw''"] q(2)
    by (simp add: matching_try_throw)
  show ?thesis
    using 2 3 q(3)
      py_collect_restores_session_journal [of matching 5 "''assets''" quiet_world]
      py_collect_restores_session_journal [of matching 5 "''\"''" quiet_world]
      py_collect_restores_session_journal [of matching 5 "''throw''" quiet_world]
    by (simp add: py_collect_matching_assets)
qed



text \<open>
  C6. A journal that has annotations when \<open>py_collect\<close> is called makes the call fail
  with \<open>RuntimeError\<close> at once: the state, with the slot \<open>session.journal\<close> and every
  journal in it, is the one the call started in.
\<close>

theorem py_collect_refuses_pending:
  assumes "has_xdata (journals w a)"
  shows "py_collect d a query w = (Inl RuntimeError, w)"
  using assms by (simp add: py_collect_def)

theorem py_collect_refuses_pending_witness:
  "has_xdata (journals busy_world 5) \<and>
   py_collect matching 5 ''assets'' busy_world = (Inl RuntimeError, busy_world)"
proof -
  have h: "has_xdata (journals busy_world 5)"
    by (simp add: busy_world_def has_xdata_def)
  show ?thesis
    using h py_collect_refuses_pending [OF h, of matching "''assets''"] by simp
qed

text \<open>
  C8. Destroying a collector empties the annotation store of the journal it refers to
  and leaves the journal's transactions alone; \<open>has_xdata\<close> of that journal is false
  afterwards, whatever it was before, and a \<open>py_collect\<close> on that journal is then not
  refused: when its \<open>try\<close> block ends normally it returns the collector.
\<close>

theorem collector_wrapper_dtor_clears:
  "xdata (journals (collector_wrapper_dtor coll w) (journal coll)) = {} \<and>
   xacts (journals (collector_wrapper_dtor coll w) (journal coll))
     = xacts (journals w (journal coll)) \<and>
   \<not> has_xdata (journals (collector_wrapper_dtor coll w) (journal coll)) \<and>
   (\<forall>r posts w'.
      py_collect_try d query (default_scope w) (journal coll)
        ((collector_wrapper_dtor coll w)\<lparr>session_journal := Some (journal coll)\<rparr>)
        = (Inr (r, posts), w') \<longrightarrow>
      fst (py_collect d (journal coll) query (collector_wrapper_dtor coll w))
        = Inr \<lparr>journal = journal coll, report = r, posts_collector = posts\<rparr>)"
proof (intro conjI allI impI)
  show "xdata (journals (collector_wrapper_dtor coll w) (journal coll)) = {}"
    by (simp add: collector_wrapper_dtor_journal clear_xdata_def)
  show "xacts (journals (collector_wrapper_dtor coll w) (journal coll))
      = xacts (journals w (journal coll))"
    by (simp add: collector_wrapper_dtor_journal clear_xdata_def)
  show "\<not> has_xdata (journals (collector_wrapper_dtor coll w) (journal coll))"
    by (simp add: collector_wrapper_dtor_journal has_xdata_clear_xdata)
next
  fix r posts w'
  assume "py_collect_try d query (default_scope w) (journal coll)
      ((collector_wrapper_dtor coll w)\<lparr>session_journal := Some (journal coll)\<rparr>)
      = (Inr (r, posts), w')"
  then show "fst (py_collect d (journal coll) query (collector_wrapper_dtor coll w))
      = Inr \<lparr>journal = journal coll, report = r, posts_collector = posts\<rparr>"
    by (simp add: py_collect_after_dtor)
qed

theorem collector_wrapper_dtor_clears_witness:
  "has_xdata (journals busy_world 5) \<and>
   \<not> has_xdata (journals
     (collector_wrapper_dtor \<lparr>journal = 5, report = [''old''], posts_collector = [10 :: nat]\<rparr>
       busy_world) 5) \<and>
   fst (py_collect matching 5 ''assets''
     (collector_wrapper_dtor \<lparr>journal = 5, report = [''old''], posts_collector = [10 :: nat]\<rparr>
       busy_world))
     = Inr \<lparr>journal = 5, report = [''assets'', ''register'', ''base''],
         posts_collector = [10, 20]\<rparr>"
proof -
  let ?coll = "\<lparr>journal = 5, report = [''old''], posts_collector = [10 :: nat]\<rparr>"
  let ?w2 = "(collector_wrapper_dtor ?coll busy_world)\<lparr>session_journal := Some 5\<rparr>"
  have h: "has_xdata (journals busy_world 5)"
    by (simp add: busy_world_def has_xdata_def)
  have d: "default_scope busy_world = [''base'']"
    by (simp add: busy_world_def)
  have j: "xacts (journals ?w2 5) = [10, 20]"
    by (simp add: collector_wrapper_dtor_def clear_xdata_def busy_world_def two_xacts_def)
  have t: "py_collect_try matching ''assets'' (default_scope busy_world) 5 ?w2
      = (Inr ([''assets'', ''register'', ''base''], [10, 20]),
         annotate 5 (insert 0 (set [10, 20])) ?w2)"
    by (simp only: d matching_try_assets j)
  note inst = collector_wrapper_dtor_clears [of ?coll busy_world matching "''assets''"]
  have 1: "\<not> has_xdata (journals (collector_wrapper_dtor ?coll busy_world) 5)"
    using inst by simp
  have 2: "fst (py_collect matching 5 ''assets'' (collector_wrapper_dtor ?coll busy_world))
     = Inr \<lparr>journal = 5, report = [''assets'', ''register'', ''base''],
         posts_collector = [10, 20]\<rparr>"
    using inst t by simp
  show ?thesis
    using h 1 2 by simp
qed



end
